theory Spec2Isabelle
  imports Main "HOL-Library.AList"
begin

section \<open>Exceptions of the pipeline as values\<close>

text \<open>
  \<^verbatim>\<open>lab_6_pipeline/pipeline.py\<close> raises the built-in \<^verbatim>\<open>FileNotFoundError\<close> and
  \<^verbatim>\<open>NotADirectoryError\<close> and its own \<^verbatim>\<open>EmptyDirectoryError\<close>,
  \<^verbatim>\<open>InconsistentDatasetError\<close> and \<^verbatim>\<open>EmptyFileError\<close>. The three messages that
  \<^verbatim>\<open>InconsistentDatasetError\<close> is raised with, and the fourth for an empty file, are kept
  as the payload of the constructor. \<^verbatim>\<open>ValueError\<close> and \<^verbatim>\<open>IndexError\<close> are what
  \<^verbatim>\<open>int(...)\<close> and \<^verbatim>\<open>conllu[idx]\<close> raise.
\<close>

datatype inconsistency =
    Amounts_not_equal nat nat
  | Meta_ids_inconsistent
  | Raw_ids_inconsistent
  | File_is_empty string

datatype fault =
    FileNotFoundError
  | NotADirectoryError
  | EmptyDirectoryError
  | InconsistentDatasetError inconsistency
  | EmptyFileError
  | ValueError
  | IndexError

fun is_inconsistent :: "fault + 'a \<Rightarrow> bool" where
  "is_inconsistent (Inl (InconsistentDatasetError m)) = True"
| "is_inconsistent r = False"

section \<open>The file system as the code reads it\<close>

text \<open>
  A file has a name, the size that \<^verbatim>\<open>stat().st_size\<close> reports and the content that
  reading it gives. A directory entry is what \<^verbatim>\<open>iterdir()\<close> yields: a file, or a name
  behind which there is nothing, such as a symbolic link whose target is gone. The code
  reads \<^verbatim>\<open>filepath.name\<close>, which every entry has, and \<^verbatim>\<open>filepath.stat().st_size\<close>;
  \<^verbatim>\<open>stat()\<close> follows the link and raises \<^verbatim>\<open>FileNotFoundError\<close> on a dangling one. The
  path handed to \<^verbatim>\<open>CorpusManager\<close> is missing, something that is not a directory, or a
  directory with its entries in the order \<^verbatim>\<open>iterdir()\<close> lists them.
\<close>

record entry =
  name :: string
  st_size :: nat
  content :: string

datatype dir_entry = File entry | Dangling_link string

fun entry_name :: "dir_entry \<Rightarrow> string" where
  "entry_name (File file) = name file"
| "entry_name (Dangling_link link) = link"

fun stat_size :: "dir_entry \<Rightarrow> fault + nat" where
  "stat_size (File file) = Inr (st_size file)"
| "stat_size (Dangling_link link) = Inl FileNotFoundError"

datatype path_state = Missing | Not_a_directory | Dir "dir_entry list"

fun exists :: "path_state \<Rightarrow> bool" where
  "exists Missing = False"
| "exists p = True"

fun is_dir :: "path_state \<Rightarrow> bool" where
  "is_dir (Dir es) = True"
| "is_dir p = False"

fun iterdir :: "path_state \<Rightarrow> dir_entry list" where
  "iterdir (Dir es) = es"
| "iterdir p = []"

text \<open>\<^verbatim>\<open>s.endswith(suf)\<close>.\<close>

definition endswith :: "string \<Rightarrow> string \<Rightarrow> bool" where
  "endswith s suf = (length suf \<le> length s \<and> drop (length s - length suf) s = suf)"

section \<open>Decimal rendering of a count: the f-string \<^verbatim>\<open>f'{count}'\<close>\<close>

definition digit_char :: "nat \<Rightarrow> char" where
  "digit_char d = char_of (48 + d)"

function str :: "nat \<Rightarrow> string" where
  "str n = (if n < 10 then [digit_char n] else str (n div 10) @ [digit_char (n mod 10)])"
  by pat_completeness auto
termination
  by (relation "measure id") auto

declare str.simps [simp del]

section \<open>\<^verbatim>\<open>CorpusManager._validate_dataset\<close>\<close>

text \<open>
  The classification loop: a name ending in \<^verbatim>\<open>_meta.json\<close> is appended to \<^verbatim>\<open>meta\<close>;
  otherwise (\<^verbatim>\<open>elif\<close>) a name ending in \<^verbatim>\<open>_raw.txt\<close> is appended to \<^verbatim>\<open>raw\<close>.
\<close>

definition classify_step :: "dir_entry \<Rightarrow> string list \<times> string list \<Rightarrow> string list \<times> string list" where
  "classify_step filepath acc =
     (if endswith (entry_name filepath) ''_meta.json'' then (fst acc @ [entry_name filepath], snd acc)
      else if endswith (entry_name filepath) ''_raw.txt'' then (fst acc, snd acc @ [entry_name filepath])
      else acc)"

definition classify :: "dir_entry list \<Rightarrow> string list \<times> string list" where
  "classify es = fold classify_step es ([], [])"

definition meta_template :: "nat \<Rightarrow> string list" where
  "meta_template n = map (\<lambda>count. str count @ ''_meta.json'') [1 ..< n + 1]"

definition raw_template :: "nat \<Rightarrow> string list" where
  "raw_template n = map (\<lambda>count. str count @ ''_raw.txt'') [1 ..< n + 1]"

text \<open>
  The last loop calls \<^verbatim>\<open>filepath.stat()\<close> on every entry in turn: the first entry of
  size zero raises \<^verbatim>\<open>InconsistentDatasetError\<close>, and an entry that \<^verbatim>\<open>stat()\<close> cannot
  reach raises the \<^verbatim>\<open>FileNotFoundError\<close> of \<^verbatim>\<open>stat()\<close>.
\<close>

fun check_sizes :: "dir_entry list \<Rightarrow> fault + unit" where
  "check_sizes [] = Inr ()"
| "check_sizes (filepath # rest) =
     (case stat_size filepath of
        Inl f \<Rightarrow> Inl f
      | Inr bytes \<Rightarrow>
          if bytes = 0
          then Inl (InconsistentDatasetError (File_is_empty (entry_name filepath)))
          else check_sizes rest)"

definition validate_dataset :: "path_state \<Rightarrow> fault + unit" where
  "validate_dataset path =
     (if \<not> exists path then Inl FileNotFoundError
      else if \<not> is_dir path then Inl NotADirectoryError
      else if iterdir path = [] then Inl EmptyDirectoryError
      else
        let meta = fst (classify (iterdir path));
            raw = snd (classify (iterdir path))
        in if length meta \<noteq> length raw
           then Inl (InconsistentDatasetError (Amounts_not_equal (length meta) (length raw)))
           else if set meta \<noteq> set (meta_template (length meta))
           then Inl (InconsistentDatasetError Meta_ids_inconsistent)
           else if set raw \<noteq> set (raw_template (length raw))
           then Inl (InconsistentDatasetError Raw_ids_inconsistent)
           else check_sizes (iterdir path))"

section \<open>\<^verbatim>\<open>CorpusManager._scan_dataset\<close> and construction\<close>

text \<open>\<^verbatim>\<open>int(s)\<close> on the decimal digit strings the dataset uses; anything else is a \<^verbatim>\<open>ValueError\<close>.\<close>

definition is_digit :: "char \<Rightarrow> bool" where
  "is_digit c = (48 \<le> (of_char c :: nat) \<and> (of_char c :: nat) \<le> 57)"

definition digit_val :: "char \<Rightarrow> nat" where
  "digit_val c = of_char c - 48"

definition int_of_str :: "string \<Rightarrow> nat option" where
  "int_of_str s =
     (if s \<noteq> [] \<and> list_all is_digit s
      then Some (foldl (\<lambda>acc c. 10 * acc + digit_val c) 0 s)
      else None)"

text \<open>
  Modelled from the spec: \<^verbatim>\<open>get_article_id_from_filepath\<close> of \<^verbatim>\<open>core_utils.article.article\<close>
  is imported by the pipeline and is not part of the sources at hand. The spec (4.1): "the
  extracted numeric id is parsed from the filename prefix"; the prefix is the part of the
  file name before its first underscore.
\<close>

definition get_article_id_from_filepath :: "string \<Rightarrow> nat option" where
  "get_article_id_from_filepath filename = int_of_str (takeWhile (\<lambda>c. c \<noteq> CHR ''_'') filename)"

record article =
  article_id :: nat
  article_text :: string
  conllu_info :: "string option"

text \<open>
  Modelled from the spec: \<^verbatim>\<open>from_raw\<close> of \<^verbatim>\<open>core_utils.article.io\<close> is imported and not
  part of the sources at hand. The spec (4.1): "builds the id -> raw-text mapping by reading
  every raw-text file": the article carries the parsed id and the text read from the file.
  Opening a name with nothing behind it raises \<^verbatim>\<open>FileNotFoundError\<close>.
\<close>

definition from_raw :: "dir_entry \<Rightarrow> fault + article" where
  "from_raw filepath =
     (case get_article_id_from_filepath (entry_name filepath) of
        None \<Rightarrow> Inl ValueError
      | Some i \<Rightarrow>
          (case filepath of
             File file \<Rightarrow> Inr \<lparr>article_id = i, article_text = content file, conllu_info = None\<rparr>
           | Dangling_link link \<Rightarrow> Inl FileNotFoundError))"

text \<open>
  \<^verbatim>\<open>self.path.glob('*_raw.txt')\<close>: the entries whose name ends in \<^verbatim>\<open>_raw.txt\<close>. The
  storage is a Python dict: an association list in insertion order, where storing under a
  key already present replaces the value in place (\<^const>\<open>AList.update\<close>).
\<close>

definition glob_raw :: "path_state \<Rightarrow> dir_entry list" where
  "glob_raw path = filter (\<lambda>filepath. endswith (entry_name filepath) ''_raw.txt'') (iterdir path)"

type_synonym storage = "(nat \<times> article) list"

fun scan_loop :: "dir_entry list \<Rightarrow> storage \<Rightarrow> fault + storage" where
  "scan_loop [] st = Inr st"
| "scan_loop (filepath # rest) st =
     (case get_article_id_from_filepath (entry_name filepath) of
        None \<Rightarrow> Inl ValueError
      | Some k \<Rightarrow>
          (case from_raw filepath of
             Inl f \<Rightarrow> Inl f
           | Inr a \<Rightarrow> scan_loop rest (AList.update k a st)))"

definition scan_dataset :: "path_state \<Rightarrow> fault + storage" where
  "scan_dataset path = scan_loop (glob_raw path) []"

text \<open>\<^verbatim>\<open>CorpusManager.__init__\<close>: validate, then scan; the result is the storage.\<close>

definition CorpusManager :: "path_state \<Rightarrow> fault + storage" where
  "CorpusManager path =
     (case validate_dataset path of
        Inl f \<Rightarrow> Inl f
      | Inr u \<Rightarrow> scan_dataset path)"

definition get_articles :: "storage \<Rightarrow> storage" where
  "get_articles st = st"

section \<open>\<^verbatim>\<open>TextProcessingPipeline.run\<close>\<close>

text \<open>
  \<^verbatim>\<open>s.replace(old, new)\<close>: occurrences of \<^verbatim>\<open>old\<close> are replaced from the left, without
  overlap; with an empty \<^verbatim>\<open>old\<close>, \<^verbatim>\<open>new\<close> is put before every character and at the end.
\<close>

function replace :: "string \<Rightarrow> string \<Rightarrow> string \<Rightarrow> string" where
  "replace s old new =
     (if old = [] then new @ concat (map (\<lambda>c. c # new) s)
      else if s = [] then []
      else if take (length old) s = old then new @ replace (drop (length old) s) old new
      else hd s # replace (tl s) old new)"
  by pat_completeness auto
termination
  by (relation "measure (\<lambda>(s, old, new). length s)") auto

declare replace.simps [simp del]

text \<open>
  The calls that \<^verbatim>\<open>run\<close> makes to its collaborators, in the order it makes them:
  \<^verbatim>\<open>self._analyzer.analyze(texts)\<close>, \<^verbatim>\<open>to_cleaned(article)\<close> and
  \<^verbatim>\<open>self._analyzer.to_conllu(article)\<close>, each with the article as it is at the call.
\<close>

datatype call = Analyze "string list" | To_cleaned article | To_conllu article

fun is_analyze :: "call \<Rightarrow> bool" where
  "is_analyze (Analyze texts) = True"
| "is_analyze c = False"

text \<open>
  The \<^verbatim>\<open>for idx, article in enumerate(...)\<close> loop. The articles are mutated in place, so
  the loop returns the storage as it leaves it and the calls it made, also when
  \<^verbatim>\<open>conllu[idx]\<close> raises \<^verbatim>\<open>IndexError\<close> (after \<^verbatim>\<open>to_cleaned\<close> of that article).
\<close>

fun run_loop :: "string list \<Rightarrow> nat \<Rightarrow> storage \<Rightarrow> fault option \<times> storage \<times> call list" where
  "run_loop conllu idx [] = (None, [], [])"
| "run_loop conllu idx ((k, a) # rest) =
     (let cleaned = a\<lparr>article_text := replace (article_text a) ''NBSP'' ''''\<rparr>
      in if idx < length conllu
         then
           let annotated = cleaned\<lparr>conllu_info := Some (conllu ! idx)\<rparr>;
               r = run_loop conllu (Suc idx) rest
           in (fst r, (k, annotated) # fst (snd r),
               To_cleaned cleaned # To_conllu annotated # snd (snd r))
         else (Some IndexError, (k, cleaned) # rest, [To_cleaned cleaned]))"

definition run :: "(string list \<Rightarrow> string list) \<Rightarrow> storage \<Rightarrow> fault option \<times> storage \<times> call list" where
  "run analyze st =
     (let texts = map (\<lambda>ka. article_text (snd ka)) (get_articles st);
          conllu = analyze texts;
          r = run_loop conllu 0 (get_articles st)
      in (fst r, fst (snd r), Analyze texts # snd (snd r)))"

text \<open>
  \<^verbatim>\<open>UDPipeAnalyzer.analyze\<close>: one string per text, the model's CoNLL-U string and a newline.
  The UDPipe model itself is external: a function from a text to its \<^verbatim>\<open>conll_str\<close>.
\<close>

definition udpipe_analyze :: "(string \<Rightarrow> string) \<Rightarrow> string list \<Rightarrow> string list" where
  "udpipe_analyze model texts = map (\<lambda>t. model t @ [CHR 0x0A]) texts"

section \<open>\<^verbatim>\<open>UDPipeAnalyzer.from_conllu\<close> and \<^verbatim>\<open>POSFrequencyPipeline._count_frequencies\<close>\<close>

text \<open>
  The artifact at \<^verbatim>\<open>conllu_path\<close> is absent (\<^verbatim>\<open>stat()\<close> raises \<^verbatim>\<open>FileNotFoundError\<close>) or
  a file. \<^verbatim>\<open>ConllParser.parse_file_as_conll\<close> belongs to an external library: a function
  from the file to the document.
\<close>

definition from_conllu :: "(entry \<Rightarrow> 'doc) \<Rightarrow> entry option \<Rightarrow> fault + 'doc" where
  "from_conllu parse_file_as_conll conllu_path =
     (case conllu_path of
        None \<Rightarrow> Inl FileNotFoundError
      | Some file \<Rightarrow>
          if st_size file = 0 then Inl EmptyFileError
          else Inr (parse_file_as_conll file))"

text \<open>
  A word is the dict of \<^verbatim>\<open>word.todict()\<close>; \<^verbatim>\<open>.get('upos')\<close> is \<^verbatim>\<open>None\<close> when the key is
  absent. A sentence has its \<^verbatim>\<open>words\<close>, a document its \<^verbatim>\<open>sentences\<close>.
\<close>

type_synonym conllu_word = "(string \<times> string) list"

record conllu_sentence =
  words :: "conllu_word list"

record conllu_document =
  sentences :: "conllu_sentence list"

type_synonym histogram = "(string option \<times> nat) list"

text \<open>The dict comprehension \<^verbatim>\<open>{pos: upos.count(pos) for pos in upos}\<close>.\<close>

definition dict_of_counts :: "string option list \<Rightarrow> histogram" where
  "dict_of_counts upos = fold (\<lambda>pos d. AList.update pos (count_list upos pos) d) upos []"

definition upos_of :: "conllu_sentence \<Rightarrow> string option list" where
  "upos_of sentence = map (\<lambda>word. map_of word ''upos'') (words sentence)"

text \<open>
  The loop over the sentences: each round assigns \<^verbatim>\<open>pos_frequencies\<close> anew from the
  sentence at hand; the value it had is not read.
\<close>

definition count_frequencies :: "(entry \<Rightarrow> conllu_document) \<Rightarrow> entry option \<Rightarrow> fault + histogram" where
  "count_frequencies parse_file_as_conll conllu_path =
     (case from_conllu parse_file_as_conll conllu_path of
        Inl f \<Rightarrow> Inl f
      | Inr article_conllu \<Rightarrow>
          Inr (fold (\<lambda>sentence pos_frequencies. dict_of_counts (upos_of sentence))
                 (sentences article_conllu) []))"

text \<open>
  What the documentation asks of the histogram ("Count POS frequency in Article"; spec 4.4:
  counts accumulate across all sentences): the number of occurrences of a tag in the whole
  document.
\<close>

definition total_occurrences :: "conllu_document \<Rightarrow> string option \<Rightarrow> nat" where
  "total_occurrences doc pos = sum_list (map (\<lambda>s. count_list (upos_of s) pos) (sentences doc))"

section \<open>\<^verbatim>\<open>PatternSearchPipeline\<close>\<close>

text \<open>
  The sentence graph is a \<^verbatim>\<open>networkx.DiGraph\<close>: nodes (word id, POS tag) and edges
  (head, dependent, relation). \<^verbatim>\<open>TreeNode\<close> comes from \<^verbatim>\<open>core_utils.pipeline\<close>, whose
  declaration is not at hand; the spec (6) gives its shape: id, tag, children.
\<close>

record digraph =
  nodes :: "(nat \<times> string) list"
  edges :: "(nat \<times> nat \<times> string) list"

datatype tree_node = TreeNode nat string "tree_node list"

text \<open>
  In the source, \<^verbatim>\<open>_add_children\<close> and \<^verbatim>\<open>_find_pattern\<close> consist of their signature and
  docstring: the body has no statement. Calling them changes nothing and returns
  \<^verbatim>\<open>None\<close>. The model of the first returns the tree node it was given, as the call leaves
  it; the model of the second returns \<^const>\<open>None\<close> where the docstring promises a dict.
\<close>

definition add_children :: "digraph \<Rightarrow> (nat \<times> nat) list \<Rightarrow> nat \<Rightarrow> tree_node \<Rightarrow> tree_node" where
  "add_children graph subgraph_to_graph node_id tree_node = tree_node"

definition find_pattern :: "digraph list \<Rightarrow> (nat \<times> tree_node list) list option" where
  "find_pattern doc_graphs = None"

section \<open>Notions of the specification\<close>

text \<open>
  The numeric prefix of a file name of a family is the part before the family's suffix,
  read as a decimal number (\<^const>\<open>None\<close> when it is not one). The prefixes of a family
  are exact when, as a set, they are the numbers from 1 to the size of the family.
\<close>

definition numeric_prefixes :: "string \<Rightarrow> string list \<Rightarrow> nat option list" where
  "numeric_prefixes suffix family =
     map (\<lambda>filename. int_of_str (take (length filename - length suffix) filename)) family"

definition prefixes_exact :: "string \<Rightarrow> string list \<Rightarrow> bool" where
  "prefixes_exact suffix family \<longleftrightarrow>
     set (numeric_prefixes suffix family) = set (map Some [1 ..< length family + 1])"

section \<open>Sample inputs\<close>

text \<open>Two meta files and two raw files, the raw ids with a gap: 1 and 3.\<close>

definition gap_dataset :: "dir_entry list" where
  "gap_dataset =
     [File \<lparr>name = ''1_meta.json'', st_size = 2, content = ''{}''\<rparr>,
      File \<lparr>name = ''2_meta.json'', st_size = 2, content = ''{}''\<rparr>,
      File \<lparr>name = ''1_raw.txt'', st_size = 1, content = ''a''\<rparr>,
      File \<lparr>name = ''3_raw.txt'', st_size = 1, content = ''b''\<rparr>]"

text \<open>A corpus of three articles, listed in no particular order.\<close>

definition three_articles_dataset :: "dir_entry list" where
  "three_articles_dataset =
     [File \<lparr>name = ''2_raw.txt'', st_size = 3, content = ''two''\<rparr>,
      File \<lparr>name = ''1_meta.json'', st_size = 2, content = ''{}''\<rparr>,
      File \<lparr>name = ''3_raw.txt'', st_size = 5, content = ''three''\<rparr>,
      File \<lparr>name = ''1_raw.txt'', st_size = 3, content = ''one''\<rparr>,
      File \<lparr>name = ''3_meta.json'', st_size = 2, content = ''{}''\<rparr>,
      File \<lparr>name = ''2_meta.json'', st_size = 2, content = ''{}''\<rparr>]"

text \<open>A corpus of one article whose raw file has no bytes.\<close>

definition empty_raw_dataset :: "dir_entry list" where
  "empty_raw_dataset =
     [File \<lparr>name = ''1_meta.json'', st_size = 2, content = ''{}''\<rparr>,
      File \<lparr>name = ''1_raw.txt'', st_size = 0, content = []\<rparr>]"

text \<open>The same corpus with a dangling link listed first.\<close>

definition dangling_before_empty_raw :: "dir_entry list" where
  "dangling_before_empty_raw =
     [Dangling_link ''latest'',
      File \<lparr>name = ''1_meta.json'', st_size = 2, content = ''{}''\<rparr>,
      File \<lparr>name = ''1_raw.txt'', st_size = 0, content = []\<rparr>]"

text \<open>A corpus of one article beside a derived cleaned-text file of no bytes.\<close>

definition empty_cleaned_dataset :: "dir_entry list" where
  "empty_cleaned_dataset =
     [File \<lparr>name = ''1_meta.json'', st_size = 2, content = ''{}''\<rparr>,
      File \<lparr>name = ''1_raw.txt'', st_size = 5, content = ''hello''\<rparr>,
      File \<lparr>name = ''1_cleaned.txt'', st_size = 0, content = []\<rparr>]"

text \<open>The same corpus with a dangling link listed first.\<close>

definition dangling_before_empty_cleaned :: "dir_entry list" where
  "dangling_before_empty_cleaned =
     [Dangling_link ''latest'',
      File \<lparr>name = ''1_meta.json'', st_size = 2, content = ''{}''\<rparr>,
      File \<lparr>name = ''1_raw.txt'', st_size = 5, content = ''hello''\<rparr>,
      File \<lparr>name = ''1_cleaned.txt'', st_size = 0, content = []\<rparr>]"

text \<open>A directory with one file that belongs to neither family.\<close>

definition unrelated_dataset :: "dir_entry list" where
  "unrelated_dataset = [File \<lparr>name = ''notes.md'', st_size = 4, content = ''todo''\<rparr>]"

text \<open>The same directory with a dangling link beside the file.\<close>

definition notes_and_dangling :: "dir_entry list" where
  "notes_and_dangling =
     [File \<lparr>name = ''notes.md'', st_size = 4, content = ''todo''\<rparr>, Dangling_link ''latest'']"

text \<open>A storage of two articles, the first with the marker in its text.\<close>

definition two_articles :: storage where
  "two_articles =
     [(1, \<lparr>article_id = 1, article_text = ''aNBSPb'', conllu_info = None\<rparr>),
      (2, \<lparr>article_id = 2, article_text = ''c'', conllu_info = None\<rparr>)]"

text \<open>
  A document of two sentences, one noun and then one verb, and the file it is loaded from.
\<close>

definition two_sentences :: conllu_document where
  "two_sentences =
     \<lparr>sentences =
        [\<lparr>words = [[(''id'', ''1''), (''form'', ''cats''), (''upos'', ''NOUN'')]]\<rparr>,
         \<lparr>words = [[(''id'', ''1''), (''form'', ''sleep''), (''upos'', ''VERB'')]]\<rparr>]\<rparr>"

definition artifact :: entry where
  "artifact = \<lparr>name = ''1_udpipe_conllu.conllu'', st_size = 9, content = ''cats NOUN''\<rparr>"

text \<open>
  Scenario C of the spec (8): a verb (1) governs a noun (2) by \<^verbatim>\<open>obj\<close>; the noun governs
  a determiner (3) and a modifier (4).
\<close>

definition scenario_c :: digraph where
  "scenario_c =
     \<lparr>nodes = [(1, ''VERB''), (2, ''NOUN''), (3, ''DET''), (4, ''ADJ'')],
      edges = [(1, 2, ''obj''), (2, 3, ''det''), (2, 4, ''amod'')]\<rparr>"

section \<open>Facts about the helpers\<close>

lemma classify_fold:
  "fold classify_step es acc =
     (fst acc @ map entry_name (filter (\<lambda>e. endswith (entry_name e) ''_meta.json'') es),
      snd acc @ map entry_name (filter (\<lambda>e. \<not> endswith (entry_name e) ''_meta.json'' \<and> endswith (entry_name e) ''_raw.txt'') es))"
  by (induction es arbitrary: acc) (simp_all add: classify_step_def)

lemma endswith_iff: "endswith s suf \<longleftrightarrow> (\<exists>p. s = p @ suf)"
proof
  assume "endswith s suf"
  then have "s = take (length s - length suf) s @ suf"
    by (metis append_take_drop_id endswith_def)
  then show "\<exists>p. s = p @ suf" ..
next
  assume "\<exists>p. s = p @ suf"
  then show "endswith s suf" by (auto simp: endswith_def)
qed

lemma endswith_exclusive: "endswith s ''_raw.txt'' \<Longrightarrow> \<not> endswith s ''_meta.json''"
proof
  assume "endswith s ''_raw.txt''" and "endswith s ''_meta.json''"
  then obtain p q where "s = p @ ''_raw.txt''" and "s = q @ ''_meta.json''"
    by (auto simp: endswith_iff)
  then have "last (p @ ''_raw.txt'') = last (q @ ''_meta.json'')" by simp
  then show False by simp
qed

lemma endswith_append [simp]: "endswith (p @ suf) suf"
  by (simp add: endswith_def)

lemma classify_meta: "fst (classify es) = map entry_name (filter (\<lambda>e. endswith (entry_name e) ''_meta.json'') es)"
  by (simp add: classify_def classify_fold)

lemma classify_raw: "snd (classify es) = map entry_name (filter (\<lambda>e. endswith (entry_name e) ''_raw.txt'') es)"
proof -
  have "filter (\<lambda>e. \<not> endswith (entry_name e) ''_meta.json'' \<and> endswith (entry_name e) ''_raw.txt'') es
        = filter (\<lambda>e. endswith (entry_name e) ''_raw.txt'') es"
    by (rule filter_cong) (auto dest: endswith_exclusive)
  then show ?thesis by (simp add: classify_def classify_fold)
qed

lemma stat_size_fault: "stat_size filepath = Inl f \<Longrightarrow> f = FileNotFoundError"
  by (cases filepath) simp_all

lemma check_sizes_names:
  assumes "es = pre @ filepath # rest" and "stat_size filepath = Inr 0"
    and "list_all (\<lambda>earlier. stat_size earlier \<noteq> Inl FileNotFoundError) pre"
  shows "\<exists>empty \<in> set es. stat_size empty = Inr 0
           \<and> check_sizes es = Inl (InconsistentDatasetError (File_is_empty (entry_name empty)))"
  using assms
proof (induction pre arbitrary: es)
  case Nil
  then show ?case by simp
next
  case (Cons earlier pre)
  from Cons.prems(3) obtain bytes where b: "stat_size earlier = Inr bytes"
    by (cases "stat_size earlier") (auto dest: stat_size_fault)
  show ?case
  proof (cases "bytes = 0")
    case True
    with b Cons.prems(1) show ?thesis by auto
  next
    case False
    from Cons.prems(3) have "list_all (\<lambda>earlier. stat_size earlier \<noteq> Inl FileNotFoundError) pre"
      by simp
    from Cons.IH [OF refl Cons.prems(2) this] b False Cons.prems(1) show ?thesis by auto
  qed
qed

lemma check_sizes_zero:
  assumes "es = pre @ filepath # rest" and "stat_size filepath = Inr 0"
    and "list_all (\<lambda>earlier. stat_size earlier \<noteq> Inl FileNotFoundError) pre"
  shows "is_inconsistent (check_sizes es)"
  using check_sizes_names [OF assms] by auto

lemma check_sizes_ok:
  "list_all (\<lambda>filepath. stat_size filepath \<noteq> Inl FileNotFoundError \<and> stat_size filepath \<noteq> Inr 0) es
     \<Longrightarrow> check_sizes es = Inr ()"
proof (induction es)
  case Nil
  then show ?case by simp
next
  case (Cons filepath es)
  then show ?case
    by (cases "stat_size filepath") (auto dest: stat_size_fault)
qed

lemma validate_zero_size:
  assumes "es = pre @ filepath # rest" and "stat_size filepath = Inr 0"
    and "list_all (\<lambda>earlier. stat_size earlier \<noteq> Inl FileNotFoundError) pre"
  shows "is_inconsistent (validate_dataset (Dir es))"
proof -
  from assms(1) have "es \<noteq> []" by auto
  then show ?thesis
    using check_sizes_zero [OF assms]
    by (simp add: validate_dataset_def Let_def)
qed

lemma of_char_digit_char: "d < 10 \<Longrightarrow> (of_char (digit_char d) :: nat) = 48 + d"
  by (simp add: digit_char_def)

lemma is_digit_digit_char: "d < 10 \<Longrightarrow> is_digit (digit_char d)"
  by (simp add: is_digit_def of_char_digit_char)

lemma digit_val_digit_char: "d < 10 \<Longrightarrow> digit_val (digit_char d) = d"
  by (simp add: digit_val_def of_char_digit_char)

lemma str_nonempty: "str n \<noteq> []"
  by (subst str.simps) simp

lemma str_digits: "list_all is_digit (str n)"
proof (induction n rule: str.induct)
  case (1 n)
  show ?case
  proof (cases "n < 10")
    case True
    then show ?thesis by (subst str.simps) (simp add: is_digit_digit_char)
  next
    case False
    with 1 show ?thesis by (subst str.simps) (simp add: is_digit_digit_char)
  qed
qed

lemma str_value: "foldl (\<lambda>acc c. 10 * acc + digit_val c) 0 (str n) = n"
proof (induction n rule: str.induct)
  case (1 n)
  show ?case
  proof (cases "n < 10")
    case True
    then show ?thesis by (subst str.simps) (simp add: digit_val_digit_char)
  next
    case False
    with 1 show ?thesis by (subst str.simps) (simp add: digit_val_digit_char)
  qed
qed

lemma int_of_str_str: "int_of_str (str n) = Some n"
  by (simp add: int_of_str_def str_nonempty str_digits str_value)

lemma underscore_not_digit: "is_digit c \<Longrightarrow> c \<noteq> CHR ''_''"
  by (auto simp: is_digit_def)

lemma takeWhile_digits: "list_all is_digit ds \<Longrightarrow> takeWhile (\<lambda>c. c \<noteq> CHR ''_'') (ds @ CHR ''_'' # rest) = ds"
  by (induction ds) (auto simp: underscore_not_digit)

lemma get_id_raw: "get_article_id_from_filepath (str n @ ''_raw.txt'') = Some n"
  using takeWhile_digits [OF str_digits, of n "''raw.txt''"]
  by (simp add: get_article_id_from_filepath_def int_of_str_str)

lemma get_id_meta: "get_article_id_from_filepath (str n @ ''_meta.json'') = Some n"
  using takeWhile_digits [OF str_digits, of n "''meta.json''"]
  by (simp add: get_article_id_from_filepath_def int_of_str_str)

lemma set_upt_1: "set [1 ..< n + 1] = {1 .. n}"
  by auto

lemma template_prefixes:
  assumes "set family = set (map (\<lambda>count. str count @ suffix) [1 ..< n + 1])"
  shows "set (numeric_prefixes suffix family) = set (map Some [1 ..< n + 1])"
proof -
  let ?f = "\<lambda>filename. int_of_str (take (length filename - length suffix) filename)"
  have "set (numeric_prefixes suffix family) = ?f ` set family"
    by (simp add: numeric_prefixes_def)
  also have "\<dots> = ?f ` (\<lambda>count. str count @ suffix) ` {1 .. n}"
    using assms by (simp only: set_map set_upt_1)
  also have "\<dots> = set (map Some [1 ..< n + 1])"
    by (simp only: set_map set_upt_1) (simp add: image_image int_of_str_str)
  finally show ?thesis .
qed

lemma is_inconsistent_iff: "is_inconsistent r \<longleftrightarrow> (\<exists>m. r = Inl (InconsistentDatasetError m))"
  by (cases r rule: is_inconsistent.cases) simp_all

lemma CorpusManager_inconsistent:
  "is_inconsistent (validate_dataset path) \<Longrightarrow> is_inconsistent (CorpusManager path)"
  by (auto simp: is_inconsistent_iff CorpusManager_def)

section \<open>Dataset validation\<close>

text \<open>
  Claim C3. Construction of the corpus manager on a directory fails with
  \<^verbatim>\<open>InconsistentDatasetError\<close> when the meta and the raw family differ in size, or when
  the numeric prefixes of either family are not exactly the set of the numbers from 1 to
  the size of the family.
\<close>

theorem families_inconsistent:
  assumes "length (fst (classify es)) \<noteq> length (snd (classify es))
           \<or> \<not> prefixes_exact ''_meta.json'' (fst (classify es))
           \<or> \<not> prefixes_exact ''_raw.txt'' (snd (classify es))"
  shows "is_inconsistent (CorpusManager (Dir es))"
proof -
  have nonempty: "es \<noteq> []"
  proof
    assume "es = []"
    then have "classify es = ([], [])" by (simp add: classify_def)
    with assms show False by (simp add: prefixes_exact_def numeric_prefixes_def)
  qed
  have meta: "set (fst (classify es)) \<noteq> set (meta_template (length (fst (classify es))))"
    if "\<not> prefixes_exact ''_meta.json'' (fst (classify es))"
    using that template_prefixes [of "fst (classify es)" "''_meta.json''" "length (fst (classify es))"]
    by (auto simp: prefixes_exact_def meta_template_def)
  have raw: "set (snd (classify es)) \<noteq> set (raw_template (length (snd (classify es))))"
    if "\<not> prefixes_exact ''_raw.txt'' (snd (classify es))"
    using that template_prefixes [of "snd (classify es)" "''_raw.txt''" "length (snd (classify es))"]
    by (auto simp: prefixes_exact_def raw_template_def)
  have "is_inconsistent (validate_dataset (Dir es))"
    using assms nonempty meta raw
    by (auto simp: validate_dataset_def Let_def)
  then show ?thesis by (rule CorpusManager_inconsistent)
qed

theorem families_inconsistent_witness:
  "length (fst (classify gap_dataset)) = length (snd (classify gap_dataset))
   \<and> \<not> prefixes_exact ''_raw.txt'' (snd (classify gap_dataset))
   \<and> is_inconsistent (CorpusManager (Dir gap_dataset))"
proof -
  have h: "\<not> prefixes_exact ''_raw.txt'' (snd (classify gap_dataset))"
    by code_simp
  have l: "length (fst (classify gap_dataset)) = length (snd (classify gap_dataset))"
    by code_simp
  from families_inconsistent [of gap_dataset] h l show ?thesis
    by simp
qed

lemma validate_ok_raw:
  assumes "validate_dataset path = Inr u"
  shows "set (map entry_name (glob_raw path)) = set (raw_template (length (glob_raw path)))"
proof -
  have "snd (classify (iterdir path)) = map entry_name (glob_raw path)"
    by (simp add: classify_raw glob_raw_def)
  with assms show ?thesis
    by (simp add: validate_dataset_def Let_def split: if_splits)
qed

lemma scan_loop_keys:
  "scan_loop fs st0 = Inr st \<Longrightarrow>
     fst ` set st = fst ` set st0 \<union>
       {k. \<exists>filepath \<in> set fs. get_article_id_from_filepath (entry_name filepath) = Some k}"
proof (induction fs arbitrary: st0)
  case Nil
  then show ?case by simp
next
  case (Cons f fs)
  from Cons.prems obtain k a where k: "get_article_id_from_filepath (entry_name f) = Some k"
    and rest: "scan_loop fs (AList.update k a st0) = Inr st"
    by (auto split: option.splits sum.splits)
  from Cons.IH [OF rest] k show ?case
    by (auto simp: AList.dom_update)
qed

lemma scan_loop_distinct:
  "scan_loop fs st0 = Inr st \<Longrightarrow> distinct (map fst st0) \<Longrightarrow> distinct (map fst st)"
proof (induction fs arbitrary: st0)
  case Nil
  then show ?case by simp
next
  case (Cons f fs)
  from Cons.prems(1) obtain k a where rest: "scan_loop fs (AList.update k a st0) = Inr st"
    by (auto split: option.splits sum.splits)
  from Cons.IH [OF rest] Cons.prems(2) show ?case
    by (simp add: AList.distinct_update)
qed

lemma set_update_subset: "set (AList.update k v al) \<subseteq> insert (k, v) (set al)"
  by (induction al) auto

lemma scan_loop_values:
  assumes "scan_loop fs st0 = Inr st"
    and "\<forall>(k, a) \<in> set st0. \<exists>file. File file \<in> S \<and> get_article_id_from_filepath (name file) = Some k
           \<and> a = \<lparr>article_id = k, article_text = content file, conllu_info = None\<rparr>"
    and "set fs \<subseteq> S"
  shows "\<forall>(k, a) \<in> set st. \<exists>file. File file \<in> S \<and> get_article_id_from_filepath (name file) = Some k
           \<and> a = \<lparr>article_id = k, article_text = content file, conllu_info = None\<rparr>"
  using assms
proof (induction fs arbitrary: st0)
  case Nil
  then show ?case by simp
next
  case (Cons f fs)
  from Cons.prems(1) obtain k a where k: "get_article_id_from_filepath (entry_name f) = Some k"
    and a: "from_raw f = Inr a"
    and rest: "scan_loop fs (AList.update k a st0) = Inr st"
    by (auto split: option.splits sum.splits)
  from a k obtain raw where f: "f = File raw"
    and a': "a = \<lparr>article_id = k, article_text = content raw, conllu_info = None\<rparr>"
    by (cases f) (auto simp: from_raw_def)
  from Cons.prems(3) f have "File raw \<in> S" by simp
  with k f a' have new: "\<exists>file. File file \<in> S \<and> get_article_id_from_filepath (name file) = Some k
           \<and> a = \<lparr>article_id = k, article_text = content file, conllu_info = None\<rparr>"
    by auto
  have "\<forall>(k, a) \<in> set (AList.update k a st0).
          \<exists>file. File file \<in> S \<and> get_article_id_from_filepath (name file) = Some k
           \<and> a = \<lparr>article_id = k, article_text = content file, conllu_info = None\<rparr>"
    using set_update_subset [of k a st0] new Cons.prems(2) by blast
  from Cons.IH [OF rest this] Cons.prems(3) show ?case by simp
qed

lemma scan_loop_total:
  "list_all (\<lambda>filepath. get_article_id_from_filepath (entry_name filepath) \<noteq> None
                         \<and> stat_size filepath \<noteq> Inl FileNotFoundError) fs \<Longrightarrow>
     \<exists>st. scan_loop fs st0 = Inr st"
proof (induction fs arbitrary: st0)
  case Nil
  then show ?case by simp
next
  case (Cons f fs)
  then show ?case by (cases f) (auto simp: from_raw_def)
qed

lemma raw_template_ids:
  "{k. \<exists>n \<in> set (raw_template N). get_article_id_from_filepath n = Some k} = {1 .. N}"
  by (auto simp: raw_template_def get_id_raw)

section \<open>The storage\<close>

text \<open>
  Claim C4. When construction of the corpus manager succeeds on a directory with N raw-text
  files (the entries of the directory whose name ends in \<^verbatim>\<open>_raw.txt\<close>), the key set of the
  mapping that \<^verbatim>\<open>get_articles\<close> returns is exactly the set of the numbers from 1 to N, the
  keys are the numeric ids parsed from the prefixes of the names of the raw-text files, the
  mapping has N entries, and every key leads to the article read from a raw-text file whose
  name has that id as its prefix.
\<close>

theorem storage_keys:
  assumes "CorpusManager (Dir es) = Inr st"
  shows "fst ` set (get_articles st)
           = {1 .. length (filter (\<lambda>filepath. endswith (entry_name filepath) ''_raw.txt'') es)}
         \<and> fst ` set (get_articles st)
           = {k. \<exists>filepath \<in> set es. endswith (entry_name filepath) ''_raw.txt''
                   \<and> get_article_id_from_filepath (entry_name filepath) = Some k}
         \<and> distinct (map fst (get_articles st))
         \<and> length (get_articles st)
           = length (filter (\<lambda>filepath. endswith (entry_name filepath) ''_raw.txt'') es)
         \<and> (\<forall>(k, a) \<in> set (get_articles st).
               \<exists>file. File file \<in> set es \<and> endswith (name file) ''_raw.txt''
                 \<and> get_article_id_from_filepath (name file) = Some k
                 \<and> a = \<lparr>article_id = k, article_text = content file, conllu_info = None\<rparr>)"
proof -
  let ?raw = "filter (\<lambda>filepath. endswith (entry_name filepath) ''_raw.txt'') es"
  let ?N = "length ?raw"
  have glob: "glob_raw (Dir es) = ?raw" by (simp add: glob_raw_def)
  from assms obtain u where ok: "validate_dataset (Dir es) = Inr u"
    and scan: "scan_loop ?raw [] = Inr st"
    by (auto simp: CorpusManager_def scan_dataset_def glob split: sum.splits)
  have keys: "fst ` set st =
      {k. \<exists>filepath \<in> set es. endswith (entry_name filepath) ''_raw.txt''
            \<and> get_article_id_from_filepath (entry_name filepath) = Some k}"
    using scan_loop_keys [OF scan] by auto
  have "fst ` set st = {k. \<exists>filepath \<in> set ?raw. get_article_id_from_filepath (entry_name filepath) = Some k}"
    using scan_loop_keys [OF scan] by simp
  also have "\<dots> = {k. \<exists>n \<in> set (map entry_name ?raw). get_article_id_from_filepath n = Some k}"
    by auto
  also have "\<dots> = {k. \<exists>n \<in> set (raw_template ?N). get_article_id_from_filepath n = Some k}"
    using validate_ok_raw [OF ok] by (simp only: glob)
  also have "\<dots> = {1 .. ?N}"
    by (rule raw_template_ids)
  finally have range: "fst ` set st = {1 .. ?N}" .
  have dist: "distinct (map fst st)"
    using scan_loop_distinct [OF scan] by simp
  have "length st = card (set (map fst st))"
    using distinct_card [OF dist] by simp
  also have "\<dots> = ?N" using range by simp
  finally have len: "length st = ?N" .
  have "\<forall>(k, a) \<in> set st. \<exists>file. File file \<in> set ?raw
           \<and> get_article_id_from_filepath (name file) = Some k
           \<and> a = \<lparr>article_id = k, article_text = content file, conllu_info = None\<rparr>"
    by (rule scan_loop_values [OF scan]) simp_all
  then have vals: "\<forall>(k, a) \<in> set st. \<exists>file. File file \<in> set es \<and> endswith (name file) ''_raw.txt''
           \<and> get_article_id_from_filepath (name file) = Some k
           \<and> a = \<lparr>article_id = k, article_text = content file, conllu_info = None\<rparr>"
    by fastforce
  from range keys dist len vals show ?thesis
    by (simp add: get_articles_def)
qed

theorem storage_keys_witness:
  "CorpusManager (Dir three_articles_dataset)
     = Inr [(2, \<lparr>article_id = 2, article_text = ''two'', conllu_info = None\<rparr>),
            (3, \<lparr>article_id = 3, article_text = ''three'', conllu_info = None\<rparr>),
            (1, \<lparr>article_id = 1, article_text = ''one'', conllu_info = None\<rparr>)]
   \<and> length (filter (\<lambda>filepath. endswith (entry_name filepath) ''_raw.txt'') three_articles_dataset) = 3
   \<and> fst ` set (get_articles
         [(2, \<lparr>article_id = 2, article_text = ''two'', conllu_info = None\<rparr>),
          (3, \<lparr>article_id = 3, article_text = ''three'', conllu_info = None\<rparr>),
          (1, \<lparr>article_id = 1, article_text = ''one'', conllu_info = None\<rparr>)]) = {1 .. 3}"
proof -
  have built: "CorpusManager (Dir three_articles_dataset)
     = Inr [(2, \<lparr>article_id = 2, article_text = ''two'', conllu_info = None\<rparr>),
            (3, \<lparr>article_id = 3, article_text = ''three'', conllu_info = None\<rparr>),
            (1, \<lparr>article_id = 1, article_text = ''one'', conllu_info = None\<rparr>)]"
    by code_simp
  have n: "length (filter (\<lambda>filepath. endswith (entry_name filepath) ''_raw.txt'') three_articles_dataset) = 3"
    by code_simp
  from storage_keys [OF built] built n show ?thesis by simp
qed

lemma families_pass:
  assumes "es \<noteq> []"
    and "length (fst (classify es)) = length (snd (classify es))"
    and "set (fst (classify es)) = set (meta_template (length (fst (classify es))))"
    and "set (snd (classify es)) = set (raw_template (length (snd (classify es))))"
  shows "validate_dataset (Dir es) = check_sizes es"
  using assms by (simp add: validate_dataset_def Let_def)

lemma CorpusManager_fault: "validate_dataset path = Inl f \<Longrightarrow> CorpusManager path = Inl f"
  by (simp add: CorpusManager_def)

section \<open>Files of zero length\<close>

text \<open>
  Claim C6, as stated, asks for \<^verbatim>\<open>InconsistentDatasetError\<close> on every directory that holds a
  file of zero length in the meta or the raw family. The size loop calls \<^verbatim>\<open>stat()\<close> on
  the entries in the order of the listing, so an entry that \<^verbatim>\<open>stat()\<close> cannot reach and
  that is listed before the empty file raises \<^verbatim>\<open>FileNotFoundError\<close> first: a dangling
  link, a well-formed meta file and an empty raw file, the family checks passing.
\<close>

theorem empty_family_file_counterexample:
  "dangling_before_empty_raw =
     [Dangling_link ''latest'',
      File \<lparr>name = ''1_meta.json'', st_size = 2, content = ''{}''\<rparr>,
      File \<lparr>name = ''1_raw.txt'', st_size = 0, content = []\<rparr>]
   \<and> endswith ''1_raw.txt'' ''_raw.txt''
   \<and> CorpusManager (Dir dangling_before_empty_raw) = Inl FileNotFoundError
   \<and> \<not> is_inconsistent (CorpusManager (Dir dangling_before_empty_raw))"
  by code_simp

text \<open>
  Claim C6, amended. A directory that holds a file of zero length in the meta family or in
  the raw family, every entry listed before it being one that \<^verbatim>\<open>stat()\<close> reaches, makes
  construction of the corpus manager fail with \<^verbatim>\<open>InconsistentDatasetError\<close>; when the
  checks of the sizes and of the names of the families pass, the fault is the one of the
  last loop, raised for an entry of zero length.
\<close>

theorem empty_family_file:
  assumes "es = pre @ filepath # rest" and "stat_size filepath = Inr 0"
    and "endswith (entry_name filepath) ''_meta.json'' \<or> endswith (entry_name filepath) ''_raw.txt''"
    and "list_all (\<lambda>earlier. stat_size earlier \<noteq> Inl FileNotFoundError) pre"
  shows "is_inconsistent (CorpusManager (Dir es))
         \<and> (length (fst (classify es)) = length (snd (classify es))
              \<and> set (fst (classify es)) = set (meta_template (length (fst (classify es))))
              \<and> set (snd (classify es)) = set (raw_template (length (snd (classify es))))
            \<longrightarrow> (\<exists>empty \<in> set es. stat_size empty = Inr 0
                   \<and> CorpusManager (Dir es)
                       = Inl (InconsistentDatasetError (File_is_empty (entry_name empty)))))"
proof (intro conjI impI)
  show "is_inconsistent (CorpusManager (Dir es))"
    using assms(1,2,4) by (intro CorpusManager_inconsistent validate_zero_size)
next
  assume pass: "length (fst (classify es)) = length (snd (classify es))
              \<and> set (fst (classify es)) = set (meta_template (length (fst (classify es))))
              \<and> set (snd (classify es)) = set (raw_template (length (snd (classify es))))"
  from assms(1) have "es \<noteq> []" by auto
  with pass have v: "validate_dataset (Dir es) = check_sizes es"
    by (simp add: families_pass)
  from check_sizes_names [OF assms(1,2,4)] obtain empty where
    e: "empty \<in> set es" "stat_size empty = Inr 0"
       "check_sizes es = Inl (InconsistentDatasetError (File_is_empty (entry_name empty)))"
    by blast
  from v e(3) have "CorpusManager (Dir es)
       = Inl (InconsistentDatasetError (File_is_empty (entry_name empty)))"
    by (simp add: CorpusManager_fault)
  with e(1,2) show "\<exists>empty \<in> set es. stat_size empty = Inr 0
       \<and> CorpusManager (Dir es) = Inl (InconsistentDatasetError (File_is_empty (entry_name empty)))"
    by blast
qed

theorem empty_family_file_witness:
  "CorpusManager (Dir empty_raw_dataset) = Inl (InconsistentDatasetError (File_is_empty ''1_raw.txt''))
   \<and> is_inconsistent (CorpusManager (Dir empty_raw_dataset))"
proof -
  let ?m = "File \<lparr>name = ''1_meta.json'', st_size = 2, content = ''{}''\<rparr>"
  let ?f = "File \<lparr>name = ''1_raw.txt'', st_size = 0, content = []\<rparr>"
  have m: "empty_raw_dataset = [?m] @ ?f # []" by (simp add: empty_raw_dataset_def)
  have s: "stat_size ?f = Inr 0" by simp
  have n: "endswith (entry_name ?f) ''_meta.json'' \<or> endswith (entry_name ?f) ''_raw.txt''" by code_simp
  have p: "list_all (\<lambda>earlier. stat_size earlier \<noteq> Inl FileNotFoundError) [?m]" by simp
  have r: "CorpusManager (Dir empty_raw_dataset) = Inl (InconsistentDatasetError (File_is_empty ''1_raw.txt''))"
    by code_simp
  from empty_family_file [OF m s n p] r show ?thesis by simp
qed

text \<open>
  Claim C9, as stated, asks for \<^verbatim>\<open>InconsistentDatasetError\<close> on every directory that holds a
  file of zero length outside the two families. As for the families, an entry that
  \<^verbatim>\<open>stat()\<close> cannot reach and that is listed before the empty file raises
  \<^verbatim>\<open>FileNotFoundError\<close> first.
\<close>

theorem empty_other_file_counterexample:
  "dangling_before_empty_cleaned =
     [Dangling_link ''latest'',
      File \<lparr>name = ''1_meta.json'', st_size = 2, content = ''{}''\<rparr>,
      File \<lparr>name = ''1_raw.txt'', st_size = 5, content = ''hello''\<rparr>,
      File \<lparr>name = ''1_cleaned.txt'', st_size = 0, content = []\<rparr>]
   \<and> \<not> endswith ''1_cleaned.txt'' ''_meta.json''
   \<and> \<not> endswith ''1_cleaned.txt'' ''_raw.txt''
   \<and> CorpusManager (Dir dangling_before_empty_cleaned) = Inl FileNotFoundError
   \<and> \<not> is_inconsistent (CorpusManager (Dir dangling_before_empty_cleaned))"
  by code_simp

text \<open>
  Claim C9, amended. The check for zero length runs over every entry of the directory: a
  file of zero length whose name ends neither in \<^verbatim>\<open>_meta.json\<close> nor in \<^verbatim>\<open>_raw.txt\<close>,
  every entry listed before it being one that \<^verbatim>\<open>stat()\<close> reaches, makes construction
  fail with \<^verbatim>\<open>InconsistentDatasetError\<close> as well.
\<close>

theorem empty_other_file:
  assumes "es = pre @ filepath # rest" and "stat_size filepath = Inr 0"
    and "\<not> endswith (entry_name filepath) ''_meta.json''"
    and "\<not> endswith (entry_name filepath) ''_raw.txt''"
    and "list_all (\<lambda>earlier. stat_size earlier \<noteq> Inl FileNotFoundError) pre"
  shows "is_inconsistent (CorpusManager (Dir es))"
  using assms(1,2,5) by (intro CorpusManager_inconsistent validate_zero_size)

theorem empty_other_file_witness:
  "CorpusManager (Dir empty_cleaned_dataset)
     = Inl (InconsistentDatasetError (File_is_empty ''1_cleaned.txt''))
   \<and> is_inconsistent (CorpusManager (Dir empty_cleaned_dataset))"
proof -
  let ?m = "File \<lparr>name = ''1_meta.json'', st_size = 2, content = ''{}''\<rparr>"
  let ?r = "File \<lparr>name = ''1_raw.txt'', st_size = 5, content = ''hello''\<rparr>"
  let ?f = "File \<lparr>name = ''1_cleaned.txt'', st_size = 0, content = []\<rparr>"
  have m: "empty_cleaned_dataset = [?m, ?r] @ ?f # []" by (simp add: empty_cleaned_dataset_def)
  have s: "stat_size ?f = Inr 0" by simp
  have n1: "\<not> endswith (entry_name ?f) ''_meta.json''" by code_simp
  have n2: "\<not> endswith (entry_name ?f) ''_raw.txt''" by code_simp
  have p: "list_all (\<lambda>earlier. stat_size earlier \<noteq> Inl FileNotFoundError) [?m, ?r]" by simp
  have r: "CorpusManager (Dir empty_cleaned_dataset)
     = Inl (InconsistentDatasetError (File_is_empty ''1_cleaned.txt''))"
    by code_simp
  from empty_other_file [OF m s n1 n2 p] r show ?thesis by simp
qed

section \<open>The checks of the path\<close>

text \<open>
  Claim C7. Construction fails with \<^verbatim>\<open>FileNotFoundError\<close> on a path that does not exist,
  with \<^verbatim>\<open>NotADirectoryError\<close> on a path that is not a directory and with
  \<^verbatim>\<open>EmptyDirectoryError\<close> on a directory without entries. These checks come before those
  of the families: an \<^verbatim>\<open>InconsistentDatasetError\<close> arises only on a directory that has
  entries.
\<close>

theorem path_checks_first:
  "CorpusManager Missing = Inl FileNotFoundError
   \<and> CorpusManager Not_a_directory = Inl NotADirectoryError
   \<and> CorpusManager (Dir []) = Inl EmptyDirectoryError
   \<and> (\<forall>path. is_inconsistent (CorpusManager path) \<longrightarrow> (\<exists>es. path = Dir es \<and> es \<noteq> []))"
proof (intro conjI allI impI)
  fix path
  assume inc: "is_inconsistent (CorpusManager path)"
  show "\<exists>es. path = Dir es \<and> es \<noteq> []"
  proof (cases path)
    case Missing
    with inc show ?thesis by (simp add: CorpusManager_def validate_dataset_def)
  next
    case Not_a_directory
    with inc show ?thesis by (simp add: CorpusManager_def validate_dataset_def)
  next
    case (Dir es)
    with inc show ?thesis by (cases es) (simp_all add: CorpusManager_def validate_dataset_def)
  qed
qed (simp_all add: CorpusManager_def validate_dataset_def)

theorem path_checks_first_witness:
  "is_inconsistent (CorpusManager (Dir gap_dataset)) \<and> (\<exists>es. Dir gap_dataset = Dir es \<and> es \<noteq> [])"
proof -
  have inc: "is_inconsistent (CorpusManager (Dir gap_dataset))" by code_simp
  from path_checks_first have
    "is_inconsistent (CorpusManager (Dir gap_dataset)) \<longrightarrow> (\<exists>es. Dir gap_dataset = Dir es \<and> es \<noteq> [])"
    by blast
  with inc show ?thesis by blast
qed

section \<open>A directory without family files\<close>

text \<open>
  Claim C10, as stated, asks for success on every directory that is not empty, has no entry
  of zero length and no entry of the meta or the raw family. An entry that \<^verbatim>\<open>stat()\<close>
  cannot reach has no length at all, zero or other, and makes the size loop raise
  \<^verbatim>\<open>FileNotFoundError\<close>: a file of four bytes beside a dangling link.
\<close>

theorem no_family_files_counterexample:
  "notes_and_dangling =
     [File \<lparr>name = ''notes.md'', st_size = 4, content = ''todo''\<rparr>, Dangling_link ''latest'']
   \<and> stat_size (File \<lparr>name = ''notes.md'', st_size = 4, content = ''todo''\<rparr>) \<noteq> Inr 0
   \<and> stat_size (Dangling_link ''latest'') \<noteq> Inr 0
   \<and> \<not> endswith ''notes.md'' ''_meta.json'' \<and> \<not> endswith ''notes.md'' ''_raw.txt''
   \<and> \<not> endswith ''latest'' ''_meta.json'' \<and> \<not> endswith ''latest'' ''_raw.txt''
   \<and> CorpusManager (Dir notes_and_dangling) = Inl FileNotFoundError"
  by code_simp

text \<open>
  Claim C10, amended. On a directory that is not empty, whose entries are all reached by
  \<^verbatim>\<open>stat()\<close> with a size above zero and none of which belongs to the meta or the raw
  family, construction succeeds and \<^verbatim>\<open>get_articles\<close> returns the empty mapping.
\<close>

theorem no_family_files:
  assumes "es \<noteq> []"
    and "list_all (\<lambda>filepath. stat_size filepath \<noteq> Inl FileNotFoundError
                              \<and> stat_size filepath \<noteq> Inr 0) es"
    and "list_all (\<lambda>filepath. \<not> endswith (entry_name filepath) ''_meta.json''
                              \<and> \<not> endswith (entry_name filepath) ''_raw.txt'') es"
  shows "CorpusManager (Dir es) = Inr [] \<and> get_articles [] = []"
proof -
  from assms(3) have none: "filter (\<lambda>e. endswith (entry_name e) ''_meta.json'') es = []"
    "filter (\<lambda>e. endswith (entry_name e) ''_raw.txt'') es = []"
    by (auto simp: list_all_iff filter_empty_conv)
  then have fams: "fst (classify es) = []" "snd (classify es) = []"
    by (simp_all add: classify_meta classify_raw)
  have "validate_dataset (Dir es) = check_sizes es"
    using assms(1) fams by (simp add: families_pass meta_template_def raw_template_def)
  with assms(2) have "validate_dataset (Dir es) = Inr ()"
    by (simp add: check_sizes_ok)
  moreover have "scan_dataset (Dir es) = Inr []"
    using none(2) by (simp add: scan_dataset_def glob_raw_def)
  ultimately show ?thesis
    by (simp add: CorpusManager_def get_articles_def)
qed

theorem no_family_files_witness:
  "unrelated_dataset \<noteq> [] \<and> CorpusManager (Dir unrelated_dataset) = Inr []"
proof -
  have a: "unrelated_dataset \<noteq> []" by (simp add: unrelated_dataset_def)
  have b: "list_all (\<lambda>filepath. stat_size filepath \<noteq> Inl FileNotFoundError
                              \<and> stat_size filepath \<noteq> Inr 0) unrelated_dataset"
    by (simp add: unrelated_dataset_def)
  have c: "list_all (\<lambda>filepath. \<not> endswith (entry_name filepath) ''_meta.json''
                              \<and> \<not> endswith (entry_name filepath) ''_raw.txt'') unrelated_dataset"
    by (simp add: unrelated_dataset_def endswith_def)
  from no_family_files [OF a b c] a show ?thesis by simp
qed

section \<open>Loading the annotation artifact\<close>

text \<open>
  Claim C8. Loading the persisted annotation artifact of an article fails with
  \<^verbatim>\<open>EmptyFileError\<close> exactly when the file on disk has zero length; otherwise it returns
  the document that the parser reads from the file.
\<close>

theorem from_conllu_empty:
  "(from_conllu parse_file_as_conll (Some file) = Inl EmptyFileError \<longleftrightarrow> st_size file = 0)
   \<and> (st_size file \<noteq> 0 \<longrightarrow> from_conllu parse_file_as_conll (Some file) = Inr (parse_file_as_conll file))"
  by (simp add: from_conllu_def)

theorem from_conllu_empty_witness:
  "st_size \<lparr>name = ''1_udpipe_conllu.conllu'', st_size = 3, content = ''abc''\<rparr> \<noteq> 0
   \<and> from_conllu content (Some \<lparr>name = ''1_udpipe_conllu.conllu'', st_size = 3, content = ''abc''\<rparr>)
       = Inr ''abc''
   \<and> from_conllu content (Some \<lparr>name = ''1_udpipe_conllu.conllu'', st_size = 0, content = ''''\<rparr>)
       = Inl EmptyFileError"
  using from_conllu_empty [of content "\<lparr>name = ''1_udpipe_conllu.conllu'', st_size = 3, content = ''abc''\<rparr>"]
    from_conllu_empty [of content "\<lparr>name = ''1_udpipe_conllu.conllu'', st_size = 0, content = ''''\<rparr>"]
  by simp

section \<open>The text processing pipeline\<close>

text \<open>
  What \<^const>\<open>replace\<close> does, said without its recursion: a text in which the marker does
  not occur is left as it is, and in a text whose first occurrence of the marker follows
  \<open>pre\<close> the occurrence is replaced and the replacement goes on behind it.
\<close>

lemma replace_absent:
  assumes "old \<noteq> []" and "\<forall>i. take (length old) (drop i s) \<noteq> old"
  shows "replace s old new = s"
  using assms(2)
proof (induction s)
  case Nil
  with assms(1) show ?case by (subst replace.simps) simp
next
  case (Cons c s)
  from Cons.prems have here: "take (length old) (c # s) \<noteq> old"
    by (metis drop0)
  have "\<forall>i. take (length old) (drop i s) \<noteq> old"
  proof
    fix i
    from Cons.prems have "take (length old) (drop (Suc i) (c # s)) \<noteq> old" by blast
    then show "take (length old) (drop i s) \<noteq> old" by simp
  qed
  from Cons.IH [OF this] here assms(1) show ?case
    by (subst replace.simps) simp
qed

lemma replace_first:
  assumes "old \<noteq> []"
    and "\<forall>i < length pre. take (length old) (drop i (pre @ old @ post)) \<noteq> old"
  shows "replace (pre @ old @ post) old new = pre @ new @ replace post old new"
  using assms(2)
proof (induction pre)
  case Nil
  from assms(1) show ?case by (subst replace.simps) simp
next
  case (Cons c pre)
  from Cons.prems have here: "take (length old) (c # pre @ old @ post) \<noteq> old"
    by fastforce
  have "\<forall>i < length pre. take (length old) (drop i (pre @ old @ post)) \<noteq> old"
  proof (intro allI impI)
    fix i
    assume "i < length pre"
    with Cons.prems have "take (length old) (drop (Suc i) ((c # pre) @ old @ post)) \<noteq> old"
      by (metis Suc_less_eq length_Cons)
    then show "take (length old) (drop i (pre @ old @ post)) \<noteq> old" by simp
  qed
  from Cons.IH [OF this] here assms(1) show ?case
    by (subst replace.simps) simp
qed

lemma replace_marker_sample: "replace ''aNBSPb'' ''NBSP'' '''' = ''ab''"
  using replace_first [of "''NBSP''" "''a''" "''b''" "''''"]
    replace_absent [of "''NBSP''" "''b''" "''''"]
  by (simp add: nth_Cons' drop_Cons')

lemma run_loop_zip:
  "idx + length st \<le> length conllu \<Longrightarrow>
   run_loop conllu idx st =
     (None,
      map (\<lambda>(ka, d). (fst ka, (snd ka)\<lparr>article_text := replace (article_text (snd ka)) ''NBSP'' '''',
                                        conllu_info := Some d\<rparr>))
        (zip st (drop idx conllu)),
      concat (map (\<lambda>(ka, d).
                [To_cleaned ((snd ka)\<lparr>article_text := replace (article_text (snd ka)) ''NBSP'' ''''\<rparr>),
                 To_conllu ((snd ka)\<lparr>article_text := replace (article_text (snd ka)) ''NBSP'' '''',
                                      conllu_info := Some d\<rparr>)])
                (zip st (drop idx conllu))))"
proof (induction st arbitrary: idx)
  case Nil
  then show ?case by simp
next
  case (Cons ka st)
  obtain k a where ka: "ka = (k, a)" by (cases ka)
  from Cons.prems have lt: "idx < length conllu" and rest: "Suc idx + length st \<le> length conllu"
    by simp_all
  from lt have d: "drop idx conllu = conllu ! idx # drop (Suc idx) conllu"
    by (simp add: Cons_nth_drop_Suc)
  show ?case
    using Cons.IH [OF rest] lt
    by (simp add: ka d Let_def)
qed

lemma zip_index:
  "length xs \<le> length ys \<Longrightarrow> zip xs ys = map (\<lambda>i. (xs ! i, ys ! i)) [0 ..< length xs]"
  by (rule nth_equalityI) auto

lemma no_analyze_calls:
  "list_all (\<lambda>c. \<not> is_analyze c)
     (concat (map (\<lambda>i. [To_cleaned (f i), To_conllu (g i)]) is))"
  by (induction "is") simp_all

lemma udpipe_analyze_length: "length (udpipe_analyze model texts) = length texts"
  by (simp add: udpipe_analyze_def)

text \<open>
  Claim C5. \<^verbatim>\<open>TextProcessingPipeline.run\<close> makes exactly one batch call of
  \<^verbatim>\<open>analyze\<close>, over the raw texts of the articles in the order in which the corpus
  iterates, and attaches the i-th result of the batch to the i-th article of the same
  iteration, after it has replaced the marker \<^verbatim>\<open>NBSP\<close> in the text by nothing and
  persisted the cleaned text. The analyzer keeps its contract of one result for every text
  (as \<^verbatim>\<open>UDPipeAnalyzer.analyze\<close> does); with fewer results \<^verbatim>\<open>conllu[idx]\<close> raises.
\<close>

theorem run_attaches_in_order:
  assumes "length st \<le> length (analyze (map (\<lambda>ka. article_text (snd ka)) st))"
  shows "\<exists>st' calls.
           run analyze st = (None, st', Analyze (map (\<lambda>ka. article_text (snd ka)) st) # calls)
           \<and> list_all (\<lambda>c. \<not> is_analyze c) calls
           \<and> length st' = length st
           \<and> (\<forall>i < length st.
                 st' ! i =
                   (fst (st ! i),
                    (snd (st ! i))
                      \<lparr>article_text := replace (article_text (snd (st ! i))) ''NBSP'' '''',
                       conllu_info := Some (analyze (map (\<lambda>ka. article_text (snd ka)) st) ! i)\<rparr>))
           \<and> calls =
               concat (map (\<lambda>i.
                 [To_cleaned ((snd (st ! i))
                    \<lparr>article_text := replace (article_text (snd (st ! i))) ''NBSP'' ''''\<rparr>),
                  To_conllu (snd (st' ! i))])
                 [0 ..< length st])"
proof -
  let ?texts = "map (\<lambda>ka. article_text (snd ka)) st"
  let ?conllu = "analyze ?texts"
  let ?strip = "\<lambda>a. a\<lparr>article_text := replace (article_text a) ''NBSP'' ''''\<rparr>"
  let ?attach = "\<lambda>a d. a\<lparr>article_text := replace (article_text a) ''NBSP'' '''', conllu_info := Some d\<rparr>"
  let ?st' = "map (\<lambda>(ka, d). (fst ka, ?attach (snd ka) d)) (zip st ?conllu)"
  let ?calls = "concat (map (\<lambda>(ka, d). [To_cleaned (?strip (snd ka)), To_conllu (?attach (snd ka) d)])
                (zip st ?conllu))"
  from assms have loop: "run_loop ?conllu 0 st = (None, ?st', ?calls)"
    using run_loop_zip [of 0 st ?conllu] by simp
  then have r: "run analyze st = (None, ?st', Analyze ?texts # ?calls)"
    by (simp add: run_def get_articles_def Let_def)
  have len: "length ?st' = length st" using assms by simp
  have nth: "?st' ! i = (fst (st ! i), ?attach (snd (st ! i)) (?conllu ! i))" if "i < length st" for i
    using that assms by simp
  have calls: "?calls = concat (map (\<lambda>i. [To_cleaned (?strip (snd (st ! i))), To_conllu (snd (?st' ! i))])
                               [0 ..< length st])"
  proof -
    have "?calls = concat (map (\<lambda>i. [To_cleaned (?strip (snd (st ! i))),
                                      To_conllu (?attach (snd (st ! i)) (?conllu ! i))]) [0 ..< length st])"
      using assms by (simp add: zip_index comp_def)
    also have "\<dots> = concat (map (\<lambda>i. [To_cleaned (?strip (snd (st ! i))), To_conllu (snd (?st' ! i))])
                               [0 ..< length st])"
      by (rule arg_cong [where f = concat], rule map_cong) (simp_all add: nth)
    finally show ?thesis .
  qed
  have none: "list_all (\<lambda>c. \<not> is_analyze c) ?calls"
    by (subst calls) (rule no_analyze_calls)
  from r none len nth calls show ?thesis by blast
qed

theorem run_attaches_in_order_witness:
  "length two_articles
     \<le> length (udpipe_analyze (\<lambda>t. t) (map (\<lambda>ka. article_text (snd ka)) two_articles))
   \<and> run (udpipe_analyze (\<lambda>t. t)) two_articles =
       (None,
        [(1, \<lparr>article_id = 1, article_text = ''ab'', conllu_info = Some (''aNBSPb'' @ [CHR 0x0A])\<rparr>),
         (2, \<lparr>article_id = 2, article_text = ''c'', conllu_info = Some (''c'' @ [CHR 0x0A])\<rparr>)],
        [Analyze [''aNBSPb'', ''c''],
         To_cleaned \<lparr>article_id = 1, article_text = ''ab'', conllu_info = None\<rparr>,
         To_conllu \<lparr>article_id = 1, article_text = ''ab'', conllu_info = Some (''aNBSPb'' @ [CHR 0x0A])\<rparr>,
         To_cleaned \<lparr>article_id = 2, article_text = ''c'', conllu_info = None\<rparr>,
         To_conllu \<lparr>article_id = 2, article_text = ''c'', conllu_info = Some (''c'' @ [CHR 0x0A])\<rparr>])"
proof -
  let ?texts = "map (\<lambda>ka. article_text (snd ka)) two_articles"
  have h: "length two_articles \<le> length (udpipe_analyze (\<lambda>t. t) ?texts)"
    by (simp add: udpipe_analyze_length)
  have texts: "?texts = [''aNBSPb'', ''c'']" by (simp add: two_articles_def)
  have strip: "replace ''aNBSPb'' ''NBSP'' '''' = ''ab''" "replace ''c'' ''NBSP'' '''' = ''c''"
    by code_simp+
  from run_attaches_in_order [of two_articles "udpipe_analyze (\<lambda>t. t)"] h obtain st' calls where
    r: "run (udpipe_analyze (\<lambda>t. t)) two_articles = (None, st', Analyze ?texts # calls)"
    and l: "length st' = length two_articles"
    and n: "\<forall>i < length two_articles.
              st' ! i = (fst (two_articles ! i),
                (snd (two_articles ! i))
                  \<lparr>article_text := replace (article_text (snd (two_articles ! i))) ''NBSP'' '''',
                   conllu_info := Some (udpipe_analyze (\<lambda>t. t) ?texts ! i)\<rparr>)"
    and c: "calls = concat (map (\<lambda>i.
                 [To_cleaned ((snd (two_articles ! i))
                    \<lparr>article_text := replace (article_text (snd (two_articles ! i))) ''NBSP'' ''''\<rparr>),
                  To_conllu (snd (st' ! i))])
                 [0 ..< length two_articles])"
    by blast
  from n have n0: "st' ! 0 = (1, \<lparr>article_id = 1, article_text = ''ab'',
                                  conllu_info = Some (''aNBSPb'' @ [CHR 0x0A])\<rparr>)"
    and n1: "st' ! 1 = (2, \<lparr>article_id = 2, article_text = ''c'',
                              conllu_info = Some (''c'' @ [CHR 0x0A])\<rparr>)"
    by (simp_all add: two_articles_def udpipe_analyze_def strip)
  from l have "length st' = 2" by (simp add: two_articles_def)
  with n0 n1 have st': "st' = [(1, \<lparr>article_id = 1, article_text = ''ab'',
                                     conllu_info = Some (''aNBSPb'' @ [CHR 0x0A])\<rparr>),
                               (2, \<lparr>article_id = 2, article_text = ''c'',
                                     conllu_info = Some (''c'' @ [CHR 0x0A])\<rparr>)]"
    by (intro nth_equalityI) (auto simp: less_Suc_eq numeral_2_eq_2)
  have upt: "[0 ..< length two_articles] = [0, 1]" by (simp add: two_articles_def upt_rec)
  from c have "calls =
        [To_cleaned \<lparr>article_id = 1, article_text = ''ab'', conllu_info = None\<rparr>,
         To_conllu \<lparr>article_id = 1, article_text = ''ab'', conllu_info = Some (''aNBSPb'' @ [CHR 0x0A])\<rparr>,
         To_cleaned \<lparr>article_id = 2, article_text = ''c'', conllu_info = None\<rparr>,
         To_conllu \<lparr>article_id = 2, article_text = ''c'', conllu_info = Some (''c'' @ [CHR 0x0A])\<rparr>]"
    by (simp add: upt st' strip) (simp add: two_articles_def strip)
  with r st' texts h show ?thesis by simp
qed

section \<open>The frequencies of the parts of speech\<close>

lemma fold_overwrite:
  "xs \<noteq> [] \<Longrightarrow> fold (\<lambda>x acc. g x) xs init = g (last xs)"
  by (induction xs rule: rev_induct) simp_all

lemma count_frequencies_last:
  assumes "sentences doc \<noteq> []" and "st_size file \<noteq> 0"
  shows "count_frequencies (\<lambda>f. doc) (Some file) = Inr (dict_of_counts (upos_of (last (sentences doc))))"
  using assms by (simp add: count_frequencies_def from_conllu_def fold_overwrite)

text \<open>
  Claim C1 asks for the histogram of the whole document: every tag with the number of its
  occurrences in all the sentences. The loop keeps the counts of the last sentence only:
  on a document of a noun sentence and a verb sentence the noun, which occurs once in the
  document, is not in the histogram.
\<close>

theorem count_frequencies_keeps_last_sentence:
  "count_frequencies (\<lambda>file. two_sentences) (Some artifact) = Inr [(Some ''VERB'', 1)]
   \<and> total_occurrences two_sentences (Some ''NOUN'') = 1
   \<and> map_of [(Some ''VERB'', 1 :: nat)] (Some ''NOUN'') = None"
  by code_simp

section \<open>The pattern search\<close>

text \<open>
  Claim C2 asks for a match tree rooted at the head of every matching edge, with the matched
  child and all that the child governs beneath it. \<^verbatim>\<open>_find_pattern\<close> and
  \<^verbatim>\<open>_add_children\<close> have no body: on the graph of scenario C, whose edge from 1 to 2
  matches (VERB, obj, NOUN), the first returns no mapping at all and the second leaves the
  tree node of the head without children.
\<close>

theorem find_pattern_builds_nothing:
  "find_pattern [scenario_c] = None
   \<and> add_children scenario_c [(1, 1), (2, 2)] 1 (TreeNode 1 ''VERB'' []) = TreeNode 1 ''VERB'' []"
  by (simp add: find_pattern_def add_children_def)

end
